theory Spec2Isabelle
  imports Main "HOL-Library.Multiset"
begin

section \<open>The mesh package: running a shell command and parsing its output\<close>

text \<open>
  This theory embeds \<^verbatim>\<open>pkg/mesh/mesh.go\<close>. Go strings are byte sequences, modelled as
  \<^typ>\<open>string\<close>. Go's \<^verbatim>\<open>int\<close> is modelled as \<^typ>\<open>int\<close>: the exit code is only
  compared, and the one subtraction of \<^verbatim>\<open>Fields\<close> is between a length and a larger
  bound, so no operation of the package can wrap around. Allocation is assumed to
  succeed (memory is not modelled).
\<close>

subsection \<open>Functions of Go's standard library used by the package\<close>

text \<open>
  \<^verbatim>\<open>strings.SplitN(s, sep, n)\<close> for a one-byte separator and \<open>n \<ge> 0\<close>: at most \<open>n\<close>
  substrings, the last one being the unsplit remainder; \<open>n = 0\<close> gives no substring.
\<close>

fun strings_SplitN :: "string \<Rightarrow> char \<Rightarrow> nat \<Rightarrow> string list" where
  "strings_SplitN s sep 0 = []"
| "strings_SplitN s sep (Suc 0) = [s]"
| "strings_SplitN s sep (Suc (Suc n)) =
     (case dropWhile (\<lambda>c. c \<noteq> sep) s of
        [] \<Rightarrow> [s]
      | _ # rest \<Rightarrow> takeWhile (\<lambda>c. c \<noteq> sep) s # strings_SplitN rest sep (Suc n))"

text \<open>
  \<^verbatim>\<open>strings.Split(s, sep)\<close> is \<^verbatim>\<open>genSplit(s, sep, 0, -1)\<close>, which replaces the negative
  count by \<^verbatim>\<open>Count(s, sep) + 1\<close>.
\<close>

definition strings_Split :: "string \<Rightarrow> char \<Rightarrow> string list" where
  "strings_Split s sep = strings_SplitN s sep (Suc (count_list s sep))"

text \<open>\<^verbatim>\<open>strings.Join(elems, sep)\<close>, which undoes \<^verbatim>\<open>strings.Split\<close>.\<close>

fun strings_Join :: "string list \<Rightarrow> string \<Rightarrow> string" where
  "strings_Join [] sep = ''''"
| "strings_Join [e] sep = e"
| "strings_Join (e # es) sep = e @ sep @ strings_Join es sep"

text \<open>
  The white space of \<^verbatim>\<open>strings.Fields\<close> and \<^verbatim>\<open>strings.TrimSpace\<close>: the six ASCII
  space characters \<^verbatim>\<open>\t \n \v \f \r\<close> and the blank. (Go also treats the multi-byte
  encodings of the Unicode spaces such as U+00A0 as white space; a string holding
  one of them is outside this model.)
\<close>

definition isSpace :: "char \<Rightarrow> bool" where
  "isSpace c \<longleftrightarrow> c \<in> {CHR 0x09, CHR 0x0A, CHR 0x0B, CHR 0x0C, CHR 0x0D, CHR 0x20}"




definition strings_TrimSpace :: "string \<Rightarrow> string" where
  "strings_TrimSpace s = rev (dropWhile isSpace (rev (dropWhile isSpace s)))"

subsection \<open>Config and Ts\<close>

text \<open>
  \<^verbatim>\<open>time.Duration\<close> is a count of nanoseconds. \<^verbatim>\<open>Ts\<close> holds a pointer to its
  \<^verbatim>\<open>Config\<close>; the model stores the configuration in the handle, which is the view of
  one handle (two handles built on one \<^verbatim>\<open>Config\<close> would share it).
\<close>

type_synonym Duration = int

record Config =
  Cmd :: string
  Shell :: string
  Timeout :: Duration
  Env :: "string list"

record Ts =
  Cfg :: Config
  stdout :: string
  stderr :: string
  exitCode :: int

text \<open>\<^verbatim>\<open>NewConfig\<close>; the argument is what \<^verbatim>\<open>os.Environ()\<close> returns.\<close>

definition NewConfig :: "string list \<Rightarrow> Config" where
  "NewConfig environ =
     \<lparr>Cmd = '''', Shell = ''bash'', Timeout = 60 * 1000000000, Env = environ\<rparr>"

text \<open>
  \<^verbatim>\<open>New(cmdStr, config...)\<close>: the optional argument is \<open>None\<close> when it is absent or nil.
  The result fields start at Go's zero values.
\<close>

definition New :: "string list \<Rightarrow> string \<Rightarrow> Config option \<Rightarrow> Ts" where
  "New environ cmdStr config =
     (let cfg = (case config of Some c \<Rightarrow> c | None \<Rightarrow> NewConfig environ);
          cfg = (if Cmd cfg = '''' then cfg\<lparr>Cmd := cmdStr\<rparr> else cfg)
      in \<lparr>Cfg = cfg, stdout = '''', stderr = '''', exitCode = 0\<rparr>)"

subsection \<open>SetEnv\<close>

text \<open>
  A Go \<^verbatim>\<open>map[string]string\<close> is given as the list of its pairs in the order in which a
  \<^verbatim>\<open>range\<close> loop visits them; a map holds each key once (\<open>go_map\<close>), and
  \<^verbatim>\<open>envVars[k]\<close> is \<^term>\<open>map_of envVars k\<close>. Two loops over one map may visit the pairs
  in different orders.
\<close>

type_synonym go_map = "(string \<times> string) list"

definition go_map :: "go_map \<Rightarrow> bool" where
  "go_map m \<longleftrightarrow> distinct (map fst m)"

text \<open>
  The first loop of \<^verbatim>\<open>SetEnv\<close> keeps the entries that split into two parts at \<^verbatim>\<open>=\<close> and
  whose key is not in the map. (The table \<^verbatim>\<open>existingKeys\<close> of the source is written and
  never read.)
\<close>

fun SetEnv_keep :: "go_map \<Rightarrow> string list \<Rightarrow> string list \<Rightarrow> string list" where
  "SetEnv_keep envVars [] newEnv = newEnv"
| "SetEnv_keep envVars (kv # rest) newEnv =
     (let parts = strings_SplitN kv (CHR ''='') 2 in
      if length parts \<noteq> 2 then SetEnv_keep envVars rest newEnv
      else (let k = parts ! 0 in
            case map_of envVars k of
              Some _ \<Rightarrow> SetEnv_keep envVars rest newEnv
            | None \<Rightarrow> SetEnv_keep envVars rest (newEnv @ [kv])))"

text \<open>The second loop appends \<^verbatim>\<open>fmt.Sprintf("%s=%s", k, v)\<close> for each pair of the map.\<close>

fun SetEnv_add :: "go_map \<Rightarrow> string list \<Rightarrow> string list" where
  "SetEnv_add [] newEnv = newEnv"
| "SetEnv_add ((k, v) # rest) newEnv = SetEnv_add rest (newEnv @ [k @ ''='' @ v])"

definition SetEnv :: "Ts \<Rightarrow> go_map \<Rightarrow> Ts" where
  "SetEnv t envVars =
     (let newEnv = SetEnv_keep envVars (Env (Cfg t)) [];
          newEnv = SetEnv_add envVars newEnv
      in t\<lparr>Cfg := (Cfg t)\<lparr>Env := newEnv\<rparr>\<rparr>)"

definition GetEnv :: "Ts \<Rightarrow> string list" where
  "GetEnv t = Env (Cfg t)"

text \<open>The key of an entry, as the claims speak of it: the part before the first \<^verbatim>\<open>=\<close>.\<close>

definition env_key :: "string \<Rightarrow> string" where
  "env_key kv = takeWhile (\<lambda>c. c \<noteq> CHR ''='') kv"

definition retained :: "go_map \<Rightarrow> string \<Rightarrow> bool" where
  "retained envVars kv \<longleftrightarrow> CHR ''='' \<in> set kv \<and> map_of envVars (env_key kv) = None"

definition entry :: "string \<times> string \<Rightarrow> string" where
  "entry p = fst p @ ''='' @ snd p"

subsection \<open>Accessors\<close>

definition Stdout :: "Ts \<Rightarrow> string" where
  "Stdout t = stdout t"

definition Stderr :: "Ts \<Rightarrow> string" where
  "Stderr t = stderr t"

definition ExitCode :: "Ts \<Rightarrow> int" where
  "ExitCode t = exitCode t"

subsection \<open>Lines, Fields, ToMap\<close>

definition Lines :: "Ts \<Rightarrow> string list" where
  "Lines t =
     (let trimSpace = Stdout t in
      if trimSpace = '''' then [] else strings_Split trimSpace (CHR 0x0A))"






subsection \<open>Exec\<close>

text \<open>
  \<^verbatim>\<open>Exec\<close> starts a process; what the process does is not decided by the package. A
  started process is described by what \<^verbatim>\<open>Exec\<close> hands to \<^verbatim>\<open>exec.CommandContext\<close>, and
  its run by what \<^verbatim>\<open>Exec\<close> reads back afterwards.
\<close>

record command =
  cmd_shell :: string
  cmd_Env :: "string list"
  cmd_Stdin :: string
  cmd_timeout :: Duration

record run_result =
  out_String :: string  \<comment> \<open>\<^verbatim>\<open>out.String()\<close>\<close>
  stderr_String :: string  \<comment> \<open>\<^verbatim>\<open>stderr.String()\<close>\<close>
  run_err :: "string option"  \<comment> \<open>\<^verbatim>\<open>err\<close> of \<^verbatim>\<open>cmd.Run()\<close>: nil, or \<^verbatim>\<open>err.Error()\<close>\<close>
  ProcessState :: "int option"  \<comment> \<open>nil, or \<^verbatim>\<open>cmd.ProcessState.ExitCode()\<close>\<close>
  DeadlineExceeded :: bool  \<comment> \<open>\<^verbatim>\<open>ctx.Err() == context.DeadlineExceeded\<close>\<close>

text \<open>
  The host: whether \<^verbatim>\<open>exec.LookPath\<close> finds a binary, what running a command yields, and
  \<^verbatim>\<open>time.Duration.String\<close>, which \<^verbatim>\<open>%s\<close> applies to the timeout.
\<close>

record host =
  LookPath :: "string \<Rightarrow> bool"
  Run :: "command \<Rightarrow> run_result"
  Duration_String :: "Duration \<Rightarrow> string"

definition timeout_message :: "host \<Rightarrow> Duration \<Rightarrow> string" where
  "timeout_message h d =
     ''Error: Command execution timed out after '' @ Duration_String h d @ ''.''"

text \<open>
  The command \<^verbatim>\<open>Exec\<close> builds: the configured shell when \<^verbatim>\<open>LookPath\<close> finds it and
  \<^verbatim>\<open>sh\<close> otherwise, with the handle's environment, the command text as standard input
  and the timeout as the deadline of its context.
\<close>

definition exec_Command :: "host \<Rightarrow> Ts \<Rightarrow> command" where
  "exec_Command h t =
     (let shell = Shell (Cfg t);
          shell = (if LookPath h shell then shell else ''sh'')
      in \<lparr>cmd_shell = shell, cmd_Env = Env (Cfg t), cmd_Stdin = Cmd (Cfg t),
          cmd_timeout = Timeout (Cfg t)\<rparr>)"

text \<open>\<^verbatim>\<open>Exec\<close> returns the handle and the processes it has started.\<close>

definition Exec :: "host \<Rightarrow> Ts \<Rightarrow> Ts \<times> command list" where
  "Exec h t =
     (if exitCode t \<noteq> 0 \<and> exitCode t \<noteq> - 1 then (t, [])
      else
        (let cmd = exec_Command h t;
             r = Run h cmd;
             t = (case run_err r of Some e \<Rightarrow> t\<lparr>stderr := e\<rparr> | None \<Rightarrow> t);
             t = (case ProcessState r of
                    Some c \<Rightarrow> t\<lparr>exitCode := c\<rparr>
                  | None \<Rightarrow> t\<lparr>exitCode := - 1\<rparr>);
             t = t\<lparr>stdout := strings_TrimSpace (out_String r)\<rparr>;
             t = t\<lparr>stderr := strings_TrimSpace (stderr_String r)\<rparr>;
             t = (if DeadlineExceeded r
                  then t\<lparr>stderr := timeout_message h (Timeout (Cfg t)), exitCode := - 1\<rparr>
                  else t)
         in (t, [cmd])))"

subsection \<open>Sample handles and hosts\<close>

definition sample_cfg :: Config where
  "sample_cfg = \<lparr>Cmd = ''exit 7'', Shell = ''bash'', Timeout = 60 * 1000000000,
                  Env = [''A=1'', ''B=2'']\<rparr>"

definition sample_ts :: "string \<Rightarrow> int \<Rightarrow> Ts" where
  "sample_ts out code = \<lparr>Cfg = sample_cfg, stdout = out, stderr = '''', exitCode = code\<rparr>"

text \<open>A handle that has run with success and printed the given text.\<close>

definition sample_out :: "string \<Rightarrow> Ts" where
  "sample_out out = sample_ts out 0"

text \<open>A fresh handle with the given environment.\<close>

definition sample_env :: "string list \<Rightarrow> Ts" where
  "sample_env env =
     \<lparr>Cfg = sample_cfg\<lparr>Env := env\<rparr>, stdout = '''', stderr = '''', exitCode = 0\<rparr>"

text \<open>A host on which every command yields the given result.\<close>

definition sample_host :: "run_result \<Rightarrow> host" where
  "sample_host r =
     \<lparr>LookPath = (\<lambda>s. s = ''bash''), Run = (\<lambda>c. r), Duration_String = (\<lambda>d. ''1m0s'')\<rparr>"

text \<open>A command that prints nothing and exits with code 7.\<close>

definition exit7 :: run_result where
  "exit7 = \<lparr>out_String = '''', stderr_String = '''', run_err = Some ''exit status 7'',
            ProcessState = Some 7, DeadlineExceeded = False\<rparr>"

text \<open>A command killed at the deadline after it wrote to both streams.\<close>

definition killed :: run_result where
  "killed = \<lparr>out_String = ''partial'', stderr_String = ''warning'',
             run_err = Some ''signal: killed'', ProcessState = Some (- 1),
             DeadlineExceeded = True\<rparr>"

text \<open>A command that prints three lines, the second one blank, and exits with code 0.\<close>

definition blank_line :: run_result where
  "blank_line = \<lparr>out_String = ''a \<newline>\<newline> b\<newline>'', stderr_String = '''',
                 run_err = None, ProcessState = Some 0, DeadlineExceeded = False\<rparr>"

section \<open>SetEnv\<close>

subsection \<open>The two loops in closed form\<close>

lemma SplitN_2:
  "strings_SplitN s sep 2 =
     (if sep \<in> set s then [takeWhile (\<lambda>c. c \<noteq> sep) s, tl (dropWhile (\<lambda>c. c \<noteq> sep) s)]
      else [s])"
proof (cases "sep \<in> set s")
  case False
  then have "dropWhile (\<lambda>c. c \<noteq> sep) s = []"
    by auto
  then show ?thesis
    using False by (simp add: numeral_2_eq_2 del: dropWhile_eq_Nil_conv)
next
  case True
  then obtain c rest where "dropWhile (\<lambda>c. c \<noteq> sep) s = c # rest"
    by (cases "dropWhile (\<lambda>c. c \<noteq> sep) s") auto
  with True show ?thesis
    by (simp add: numeral_2_eq_2)
qed

lemma SetEnv_keep_filter:
  "SetEnv_keep envVars env newEnv = newEnv @ filter (retained envVars) env"
  by (induction env arbitrary: newEnv)
    (auto simp add: SplitN_2 retained_def env_key_def Let_def split: option.splits)

lemma SetEnv_add_map: "SetEnv_add envVars newEnv = newEnv @ map entry envVars"
  by (induction envVars newEnv rule: SetEnv_add.induct) (auto simp add: entry_def)

lemma Env_SetEnv:
  "Env (Cfg (SetEnv t envVars)) = filter (retained envVars) (Env (Cfg t)) @ map entry envVars"
  by (simp add: SetEnv_def SetEnv_keep_filter SetEnv_add_map)

lemma retained_keys:
  "retained envVars kv \<longleftrightarrow> CHR ''='' \<in> set kv \<and> env_key kv \<notin> fst ` set envVars"
  by (simp add: retained_def map_of_eq_None_iff)

lemma takeWhile_upto_sep:
  "sep \<notin> set k \<Longrightarrow> takeWhile (\<lambda>c. c \<noteq> sep) (k @ sep # v) = k"
  by (induction k) auto

lemma env_key_entry: "CHR ''='' \<notin> set (fst p) \<Longrightarrow> env_key (entry p) = fst p"
  by (simp add: env_key_def entry_def takeWhile_upto_sep)

lemma map_env_key_entries:
  "\<forall>k \<in> fst ` set envVars. CHR ''='' \<notin> set k \<Longrightarrow>
   map env_key (map entry envVars) = map fst envVars"
  by (induction envVars) (auto simp add: env_key_entry)

lemma retained_entry:
  "p \<in> set envVars \<Longrightarrow> CHR ''='' \<notin> set (fst p) \<Longrightarrow> \<not> retained envVars (entry p)"
  by (simp add: retained_keys env_key_entry)

lemma filter_retained_entries:
  assumes "\<forall>k \<in> fst ` set envVars. CHR ''='' \<notin> set k"
    and "set envVars' = set envVars"
  shows "filter (retained envVars') (filter (retained envVars) env @ map entry envVars) =
         filter (retained envVars) env"
proof -
  have same: "retained envVars' = retained envVars"
    using assms(2) by (simp add: retained_keys fun_eq_iff)
  have "filter (retained envVars) (map entry envVars) = []"
    using assms(1) by (auto simp add: filter_empty_conv retained_entry)
  then show ?thesis
    by (simp add: same)
qed

lemma entry_inj:
  assumes "CHR ''='' \<notin> set (fst p)" "CHR ''='' \<notin> set (fst q)" "entry p = entry q"
  shows "p = q"
proof -
  from assms have "env_key (entry p) = env_key (entry q)"
    by simp
  with assms(1,2) have k: "fst p = fst q"
    by (simp add: env_key_entry)
  with assms(3) have "snd p = snd q"
    by (simp add: entry_def)
  with k show ?thesis
    by (simp add: prod_eq_iff)
qed

subsection \<open>The entries after an overlay\<close>

text \<open>
  C4. After \<^verbatim>\<open>SetEnv(envVars)\<close> the environment list is: the prior entries that contain
  \<^verbatim>\<open>=\<close> and whose key is not a key of the map, in their order, followed by one entry
  \<^verbatim>\<open>KEY=VALUE\<close> for each pair of the map. So an entry without \<^verbatim>\<open>=\<close> is not in the
  list, and a prior entry whose key is in the map is in the list only if it is equal to
  one of the entries written for the map.
\<close>

theorem SetEnv_entries:
  "Env (Cfg (SetEnv t envVars)) =
     filter (\<lambda>kv. CHR ''='' \<in> set kv \<and> env_key kv \<notin> fst ` set envVars) (Env (Cfg t)) @
     map (\<lambda>(k, v). k @ ''='' @ v) envVars \<and>
   (\<forall>kv \<in> set (Env (Cfg t)).
      CHR ''='' \<notin> set kv \<longrightarrow> kv \<notin> set (Env (Cfg (SetEnv t envVars)))) \<and>
   (\<forall>kv \<in> set (Env (Cfg t)).
      env_key kv \<in> fst ` set envVars \<and> kv \<notin> (\<lambda>(k, v). k @ ''='' @ v) ` set envVars \<longrightarrow>
      kv \<notin> set (Env (Cfg (SetEnv t envVars))))"
proof -
  have e: "entry = (\<lambda>(k, v). k @ ''='' @ v)"
    by (auto simp add: entry_def fun_eq_iff)
  have r: "retained envVars = (\<lambda>kv. CHR ''='' \<in> set kv \<and> env_key kv \<notin> fst ` set envVars)"
    by (auto simp add: retained_keys fun_eq_iff)
  have 1: "Env (Cfg (SetEnv t envVars)) =
     filter (\<lambda>kv. CHR ''='' \<in> set kv \<and> env_key kv \<notin> fst ` set envVars) (Env (Cfg t)) @
     map (\<lambda>(k, v). k @ ''='' @ v) envVars"
    using Env_SetEnv [of t envVars] by (simp only: e r)
  have 2: "\<forall>kv \<in> set (Env (Cfg t)).
      CHR ''='' \<notin> set kv \<longrightarrow> kv \<notin> set (Env (Cfg (SetEnv t envVars)))"
    unfolding 1 by auto
  have 3: "\<forall>kv \<in> set (Env (Cfg t)).
      env_key kv \<in> fst ` set envVars \<and> kv \<notin> (\<lambda>(k, v). k @ ''='' @ v) ` set envVars \<longrightarrow>
      kv \<notin> set (Env (Cfg (SetEnv t envVars)))"
    unfolding 1 by auto
  from 1 2 3 show ?thesis by blast
qed

text \<open>The base \<^verbatim>\<open>["A=1","B=2"]\<close> overlaid with \<^verbatim>\<open>{"A":"9"}\<close>.\<close>

theorem SetEnv_entries_witness:
  "Env (Cfg (SetEnv (sample_env [''A=1'', ''B=2'']) [(''A'', ''9'')])) = [''B=2'', ''A=9''] \<and>
   ''A=9'' \<in> set (Env (Cfg (SetEnv (sample_env [''A=1'', ''B=2'']) [(''A'', ''9'')]))) \<and>
   ''B=2'' \<in> set (Env (Cfg (SetEnv (sample_env [''A=1'', ''B=2'']) [(''A'', ''9'')]))) \<and>
   ''A=1'' \<notin> set (Env (Cfg (SetEnv (sample_env [''A=1'', ''B=2'']) [(''A'', ''9'')])))"
  using SetEnv_entries [of "sample_env [''A=1'', ''B=2'']" "[(''A'', ''9'')]"]
  by (simp add: sample_env_def env_key_def)

subsection \<open>Distinct keys\<close>

text \<open>
  C5, as the claim states it, fails: \<^verbatim>\<open>SetEnv\<close> never compares two prior entries with
  each other. The base \<^verbatim>\<open>["A=1","A=2"]\<close> overlaid with \<^verbatim>\<open>{"B":"3"}\<close> keeps both
  entries of key \<^verbatim>\<open>A\<close>.
\<close>

theorem SetEnv_duplicate_keys_kept:
  "Env (Cfg (SetEnv (sample_env [''A=1'', ''A=2'']) [(''B'', ''3'')])) =
     [''A=1'', ''A=2'', ''B=3''] \<and>
   map env_key (Env (Cfg (SetEnv (sample_env [''A=1'', ''A=2'']) [(''B'', ''3'')]))) =
     [''A'', ''A'', ''B''] \<and>
   \<not> distinct (map env_key (Env (Cfg (SetEnv (sample_env [''A=1'', ''A=2'']) [(''B'', ''3'')]))))"
  by (simp add: Env_SetEnv retained_keys env_key_def entry_def sample_env_def sample_cfg_def)

text \<open>
  A key of the map that contains \<^verbatim>\<open>=\<close> is written as an entry whose key is only the
  part before it: the map \<^verbatim>\<open>{"A":"1","A=B":"c"}\<close> writes two entries of key \<^verbatim>\<open>A\<close>.
\<close>

lemma SetEnv_key_with_separator:
  "map env_key (Env (Cfg (SetEnv (sample_env []) [(''A'', ''1''), (''A=B'', ''c'')]))) =
     [''A'', ''A'']"
  by (simp add: Env_SetEnv retained_keys env_key_def entry_def sample_env_def sample_cfg_def)

text \<open>
  C5, amended. For a map whose keys do not contain \<^verbatim>\<open>=\<close>, the keys of the entries after
  \<^verbatim>\<open>SetEnv\<close> are pairwise distinct exactly when the keys of the retained prior entries
  are; they are, in particular, when the prior entries containing \<^verbatim>\<open>=\<close> had pairwise
  distinct keys.
\<close>

theorem SetEnv_distinct_keys:
  assumes "go_map envVars"
    and "\<forall>k \<in> fst ` set envVars. CHR ''='' \<notin> set k"
  shows "(distinct (map env_key (Env (Cfg (SetEnv t envVars)))) \<longleftrightarrow>
          distinct (map env_key
            (filter (\<lambda>kv. CHR ''='' \<in> set kv \<and> env_key kv \<notin> fst ` set envVars) (Env (Cfg t))))) \<and>
         (distinct (map env_key (filter (\<lambda>kv. CHR ''='' \<in> set kv) (Env (Cfg t)))) \<longrightarrow>
          distinct (map env_key (Env (Cfg (SetEnv t envVars)))))"
proof -
  have r: "retained envVars = (\<lambda>kv. CHR ''='' \<in> set kv \<and> env_key kv \<notin> fst ` set envVars)"
    by (auto simp add: retained_keys fun_eq_iff)
  have keys: "map env_key (Env (Cfg (SetEnv t envVars))) =
      map env_key (filter (retained envVars) (Env (Cfg t))) @ map fst envVars"
    by (simp only: Env_SetEnv map_append map_env_key_entries [OF assms(2)])
  have disj: "set (map env_key (filter (retained envVars) (Env (Cfg t)))) \<inter> set (map fst envVars) = {}"
    by (auto simp add: retained_keys)
  from assms(1) have "distinct (map fst envVars)"
    by (simp add: go_map_def)
  with keys disj have 1: "distinct (map env_key (Env (Cfg (SetEnv t envVars)))) \<longleftrightarrow>
      distinct (map env_key (filter (retained envVars) (Env (Cfg t))))"
    by simp
  have "filter (retained envVars) (Env (Cfg t)) =
      filter (\<lambda>kv. env_key kv \<notin> fst ` set envVars) (filter (\<lambda>kv. CHR ''='' \<in> set kv) (Env (Cfg t)))"
    by (simp add: r conj_commute)
  then have 2: "distinct (map env_key (filter (retained envVars) (Env (Cfg t))))"
    if "distinct (map env_key (filter (\<lambda>kv. CHR ''='' \<in> set kv) (Env (Cfg t))))"
    using that by (simp only: distinct_map_filter)
  from 1 2 show ?thesis
    by (simp only: r) blast
qed

theorem SetEnv_distinct_keys_witness:
  "go_map [(''A'', ''9''), (''C'', ''3'')] \<and>
   distinct (map env_key
     (Env (Cfg (SetEnv (sample_env [''A=1'', ''B=2'', ''junk'']) [(''A'', ''9''), (''C'', ''3'')]))))"
  using SetEnv_distinct_keys [of "[(''A'', ''9''), (''C'', ''3'')]" "sample_env [''A=1'', ''B=2'', ''junk'']"]
  by (simp add: go_map_def sample_env_def env_key_def)

subsection \<open>Applying one map twice\<close>

text \<open>
  C6, as the claim states it, fails for a key that contains \<^verbatim>\<open>=\<close>: the entry written for
  \<^verbatim>\<open>{"A=B":"c"}\<close> is \<^verbatim>\<open>A=B=c\<close>, whose key is \<^verbatim>\<open>A\<close>, so the second application retains
  it and writes it again.
\<close>

theorem SetEnv_twice_counterexample:
  "Env (Cfg (SetEnv (sample_env []) [(''A=B'', ''c'')])) = [''A=B=c''] \<and>
   Env (Cfg (SetEnv (SetEnv (sample_env []) [(''A=B'', ''c'')]) [(''A=B'', ''c'')])) =
     [''A=B=c'', ''A=B=c''] \<and>
   mset (Env (Cfg (SetEnv (SetEnv (sample_env []) [(''A=B'', ''c'')]) [(''A=B'', ''c'')]))) \<noteq>
     mset (Env (Cfg (SetEnv (sample_env []) [(''A=B'', ''c'')])))"
  by (simp add: Env_SetEnv retained_keys env_key_def entry_def sample_env_def sample_cfg_def)

text \<open>
  C6, amended. For a map whose keys do not contain \<^verbatim>\<open>=\<close>, applying \<^verbatim>\<open>SetEnv\<close> a second
  time with the same map (its pairs visited in any order) leaves the same entries, as a
  multiset, as applying it once; and each entry written for the map occurs exactly
  once.
\<close>

theorem SetEnv_idempotent:
  assumes "\<forall>k \<in> fst ` set envVars. CHR ''='' \<notin> set k"
    and "mset envVars' = mset envVars"
  shows "mset (Env (Cfg (SetEnv (SetEnv t envVars) envVars'))) =
           mset (Env (Cfg (SetEnv t envVars))) \<and>
         (go_map envVars \<longrightarrow>
            (\<forall>(k, v) \<in> set envVars.
               count_list (Env (Cfg (SetEnv (SetEnv t envVars) envVars'))) (k @ ''='' @ v) = 1))"
proof -
  from assms(2) have sets: "set envVars' = set envVars"
    by (rule mset_eq_setD)
  have twice: "Env (Cfg (SetEnv (SetEnv t envVars) envVars')) =
      filter (retained envVars) (Env (Cfg t)) @ map entry envVars'"
    by (simp only: Env_SetEnv filter_retained_entries [OF assms(1) sets])
  have once: "Env (Cfg (SetEnv t envVars)) =
      filter (retained envVars) (Env (Cfg t)) @ map entry envVars"
    by (rule Env_SetEnv)
  have "mset (map entry envVars') = mset (map entry envVars)"
    using assms(2) by simp
  then have 1: "mset (Env (Cfg (SetEnv (SetEnv t envVars) envVars'))) =
      mset (Env (Cfg (SetEnv t envVars)))"
    unfolding twice once by simp
  have 2: "count_list (Env (Cfg (SetEnv (SetEnv t envVars) envVars'))) (k @ ''='' @ v) = 1"
    if gm: "go_map envVars" and kv: "(k, v) \<in> set envVars" for k v
  proof -
    have e: "k @ ''='' @ v = entry (k, v)"
      by (simp add: entry_def)
    have "\<not> retained envVars (entry (k, v))"
      using kv assms(1) by (intro retained_entry) auto
    then have "entry (k, v) \<notin> set (filter (retained envVars) (Env (Cfg t)))"
      by simp
    then have a: "count_list (filter (retained envVars) (Env (Cfg t))) (entry (k, v)) = 0"
      by (simp only: count_list_0_iff not_False_eq_True)
    from gm have "distinct envVars"
      by (simp add: go_map_def distinct_map)
    moreover have "inj_on entry (set envVars)"
      using assms(1) by (intro inj_onI entry_inj) auto
    ultimately have "distinct (map entry envVars)"
      by (simp add: distinct_map)
    then have "count (mset (map entry envVars)) (entry (k, v)) = 1"
      using kv by (simp add: distinct_count_atmost_1)
    then have "count (mset (map entry envVars')) (entry (k, v)) = 1"
      using assms(2) by simp
    then have b: "count_list (map entry envVars') (entry (k, v)) = 1"
      by (simp only: count_mset)
    show ?thesis
      by (simp only: e twice count_list_append a b)
  qed
  from 1 2 show ?thesis by blast
qed

text \<open>The map \<^verbatim>\<open>{"A":"1"}\<close> applied twice.\<close>

theorem SetEnv_idempotent_witness:
  "mset (Env (Cfg (SetEnv (SetEnv (sample_env [''A=0'', ''B=2'']) [(''A'', ''1'')]) [(''A'', ''1'')]))) =
     mset [''B=2'', ''A=1''] \<and>
   count_list
     (Env (Cfg (SetEnv (SetEnv (sample_env [''A=0'', ''B=2'']) [(''A'', ''1'')]) [(''A'', ''1'')])))
     ''A=1'' = 1"
proof -
  have once: "Env (Cfg (SetEnv (sample_env [''A=0'', ''B=2'']) [(''A'', ''1'')])) = [''B=2'', ''A=1'']"
    by (simp add: Env_SetEnv retained_keys env_key_def entry_def sample_env_def sample_cfg_def)
  show ?thesis
    using SetEnv_idempotent [of "[(''A'', ''1'')]" "[(''A'', ''1'')]" "sample_env [''A=0'', ''B=2'']"]
    by (simp add: go_map_def once)
qed

section \<open>Lines\<close>

subsection \<open>Splitting at a separator\<close>

lemma count_list_no_sep: "sep \<notin> set s \<Longrightarrow> count_list s sep = 0"
  by (simp add: count_list_0_iff)

lemma split_at_sep:
  assumes "dropWhile (\<lambda>c. c \<noteq> sep) s = c # rest"
  shows "s = takeWhile (\<lambda>c. c \<noteq> sep) s @ sep # rest"
    and "count_list s sep = Suc (count_list rest sep)"
proof -
  from assms have "dropWhile (\<lambda>c. c \<noteq> sep) s \<noteq> []"
    by simp
  from hd_dropWhile [OF this] assms have "c = sep"
    by simp
  with assms takeWhile_dropWhile_id [of "\<lambda>c. c \<noteq> sep" s]
  show s: "s = takeWhile (\<lambda>c. c \<noteq> sep) s @ sep # rest"
    by simp
  have "sep \<notin> set (takeWhile (\<lambda>c. c \<noteq> sep) s)"
    by (auto dest: set_takeWhileD)
  then have "count_list (takeWhile (\<lambda>c. c \<noteq> sep) s @ sep # rest) sep = Suc (count_list rest sep)"
    by (simp add: count_list_no_sep)
  with s show "count_list s sep = Suc (count_list rest sep)"
    by simp
qed

lemma SplitN_length:
  "count_list s sep \<le> n \<Longrightarrow> length (strings_SplitN s sep (Suc n)) = Suc (count_list s sep)"
proof (induction n arbitrary: s)
  case 0
  then show ?case by simp
next
  case (Suc n)
  show ?case
  proof (cases "dropWhile (\<lambda>c. c \<noteq> sep) s")
    case Nil
    then have "sep \<notin> set s" by auto
    with Nil show ?thesis
      by (simp add: count_list_no_sep del: dropWhile_eq_Nil_conv)
  next
    case (Cons c rest)
    from split_at_sep(2) [OF Cons] Suc.prems have "count_list rest sep \<le> n"
      by simp
    from Suc.IH [OF this] Cons split_at_sep(2) [OF Cons] show ?thesis
      by simp
  qed
qed

lemma SplitN_no_sep:
  "count_list s sep \<le> n \<Longrightarrow> l \<in> set (strings_SplitN s sep (Suc n)) \<Longrightarrow> sep \<notin> set l"
proof (induction n arbitrary: s)
  case 0
  then show ?case by (simp add: count_list_0_iff)
next
  case (Suc n)
  show ?case
  proof (cases "dropWhile (\<lambda>c. c \<noteq> sep) s")
    case Nil
    then have "sep \<notin> set s" by auto
    with Nil Suc.prems(2) show ?thesis
      by (simp del: dropWhile_eq_Nil_conv)
  next
    case (Cons c rest)
    from split_at_sep(2) [OF Cons] Suc.prems(1) have le: "count_list rest sep \<le> n"
      by simp
    from Suc.prems(2) Cons
    have "l = takeWhile (\<lambda>c. c \<noteq> sep) s \<or> l \<in> set (strings_SplitN rest sep (Suc n))"
      by simp
    then show ?thesis
    proof
      assume "l = takeWhile (\<lambda>c. c \<noteq> sep) s"
      then show ?thesis by (auto dest: set_takeWhileD)
    next
      assume "l \<in> set (strings_SplitN rest sep (Suc n))"
      with Suc.IH [OF le] show ?thesis by simp
    qed
  qed
qed

lemma SplitN_not_Nil: "strings_SplitN s sep (Suc n) \<noteq> []"
  by (cases n) (simp_all split: list.split)

lemma Join_Cons: "es \<noteq> [] \<Longrightarrow> strings_Join (e # es) sep = e @ sep @ strings_Join es sep"
  by (cases es) simp_all

lemma SplitN_Join: "strings_Join (strings_SplitN s sep (Suc n)) [sep] = s"
proof (induction n arbitrary: s)
  case 0
  then show ?case by simp
next
  case (Suc n)
  show ?case
  proof (cases "dropWhile (\<lambda>c. c \<noteq> sep) s")
    case Nil
    then show ?thesis by (simp del: dropWhile_eq_Nil_conv)
  next
    case (Cons c rest)
    have "strings_SplitN s sep (Suc (Suc n)) =
        takeWhile (\<lambda>c. c \<noteq> sep) s # strings_SplitN rest sep (Suc n)"
      using Cons by simp
    then have "strings_Join (strings_SplitN s sep (Suc (Suc n))) [sep] =
        takeWhile (\<lambda>c. c \<noteq> sep) s @ [sep] @ strings_Join (strings_SplitN rest sep (Suc n)) [sep]"
      by (simp only: Join_Cons [OF SplitN_not_Nil])
    also have "\<dots> = takeWhile (\<lambda>c. c \<noteq> sep) s @ sep # rest"
      by (simp add: Suc.IH)
    also have "\<dots> = s"
      using split_at_sep(1) [OF Cons] by simp
    finally show ?thesis .
  qed
qed

lemma Join_hd:
  assumes "strings_Join es [c] \<noteq> ''''" and "hd (strings_Join es [c]) \<noteq> c"
  shows "hd es \<noteq> '''' \<and> hd (hd es) = hd (strings_Join es [c])"
proof (cases es)
  case Nil
  with assms show ?thesis by simp
next
  case (Cons e es')
  with assms show ?thesis
    by (cases es'; cases e) auto
qed

lemma Join_last:
  "strings_Join es [c] \<noteq> '''' \<Longrightarrow> last (strings_Join es [c]) \<noteq> c \<Longrightarrow>
   last es \<noteq> '''' \<and> last (last es) = last (strings_Join es [c])"
proof (induction es "[c]" rule: strings_Join.induct)
  case 1
  then show ?case by simp
next
  case (2 e)
  then show ?case by simp
next
  case (3 e e' es)
  let ?J = "strings_Join (e' # es) [c]"
  from 3(3) have "?J \<noteq> []"
    by auto
  moreover with 3(3) have "last ?J \<noteq> c"
    by simp
  ultimately have "last (e' # es) \<noteq> '''' \<and> last (last (e' # es)) = last ?J"
    by (rule 3(1))
  with \<open>?J \<noteq> []\<close> show ?case
    by simp
qed

subsection \<open>Trimmed strings\<close>

lemma last_dropWhile: "dropWhile P xs \<noteq> [] \<Longrightarrow> last (dropWhile P xs) = last xs"
  by (induction xs) (auto split: if_splits)

lemma TrimSpace_ends:
  assumes "strings_TrimSpace s \<noteq> ''''"
  shows "\<not> isSpace (hd (strings_TrimSpace s))" and "\<not> isSpace (last (strings_TrimSpace s))"
proof -
  define u where "u = dropWhile isSpace s"
  define w where "w = dropWhile isSpace (rev u)"
  have t: "strings_TrimSpace s = rev w"
    by (simp add: strings_TrimSpace_def u_def w_def)
  with assms have w: "w \<noteq> []"
    by simp
  then have u: "u \<noteq> []"
    by (auto simp add: w_def)
  from w have "\<not> isSpace (hd w)"
    unfolding w_def by (rule hd_dropWhile)
  with w show "\<not> isSpace (last (strings_TrimSpace s))"
    by (simp add: t last_rev)
  from w have "last w = last (rev u)"
    unfolding w_def by (rule last_dropWhile)
  with u have "last w = hd u"
    by (simp add: last_rev)
  moreover from u have "\<not> isSpace (hd u)"
    unfolding u_def by (rule hd_dropWhile)
  ultimately show "\<not> isSpace (hd (strings_TrimSpace s))"
    using w by (simp add: t hd_rev)
qed

lemma isSpace_newline: "isSpace (CHR 0x0A)"
  by (simp add: isSpace_def)

subsection \<open>The lines of stdout\<close>

lemma Lines_nonempty:
  assumes "Stdout t \<noteq> ''''"
  shows "Lines t = strings_SplitN (Stdout t) (CHR 0x0A) (Suc (count_list (Stdout t) (CHR 0x0A)))"
  using assms by (simp add: Lines_def Let_def strings_Split_def)


lemma Lines_Join:
  assumes "Stdout t \<noteq> ''''"
  shows "strings_Join (Lines t) [CHR 0x0A] = Stdout t"
  unfolding Lines_nonempty [OF assms] by (rule SplitN_Join)

lemma Lines_trimmed:
  assumes "Stdout t = strings_TrimSpace s" and "Stdout t \<noteq> ''''"
  shows "hd (Lines t) \<noteq> '''' \<and> \<not> isSpace (hd (hd (Lines t))) \<and>
         last (Lines t) \<noteq> '''' \<and> \<not> isSpace (last (last (Lines t)))"
proof -
  note J = Lines_Join [OF assms(2)]
  from assms TrimSpace_ends [of s]
  have h: "\<not> isSpace (hd (Stdout t))" and l: "\<not> isSpace (last (Stdout t))"
    by simp_all
  from h isSpace_newline have "hd (Stdout t) \<noteq> CHR 0x0A"
    by auto
  with assms(2) have 1: "hd (Lines t) \<noteq> '''' \<and> hd (hd (Lines t)) = hd (Stdout t)"
    using Join_hd [of "Lines t" "CHR 0x0A"] by (simp add: J)
  from l isSpace_newline have "last (Stdout t) \<noteq> CHR 0x0A"
    by auto
  with assms(2) have 2: "last (Lines t) \<noteq> '''' \<and> last (last (Lines t)) = last (Stdout t)"
    using Join_last [of "Lines t" "CHR 0x0A"] by (simp add: J)
  from 1 2 h l show ?thesis
    by simp
qed

text \<open>
  C7, as the claim states it, fails: \<^verbatim>\<open>Lines\<close> splits stdout at the newlines and keeps
  each piece as it is. \<^verbatim>\<open>Exec\<close> trims stdout as a whole only, so after a command that
  prints \<^verbatim>\<open>a\<close> and a blank, an empty line, and a blank and \<^verbatim>\<open>b\<close>, the lines are
  \<^verbatim>\<open>a\<close> with a trailing blank, the empty string, and \<^verbatim>\<open>b\<close> with a leading blank.
\<close>

theorem Lines_blank_line:
  "Lines (fst (Exec (sample_host blank_line) (sample_ts '''' 0))) = [''a '', '''', '' b'']"
  by (simp add: Lines_def Stdout_def Exec_def Let_def exec_Command_def sample_host_def
      blank_line_def sample_ts_def strings_TrimSpace_def isSpace_def strings_Split_def)

text \<open>
  C7, amended. When stdout is empty, \<^verbatim>\<open>Lines\<close> has length 0. Otherwise it has one
  element more than stdout has newlines, no element contains a newline, and the
  elements joined by newlines are stdout. When moreover stdout is a trimmed string (as
  \<^verbatim>\<open>Exec\<close> leaves it), the first element is not empty and does not start with white
  space, and the last element is not empty and does not end with white space.
\<close>

theorem Lines_segments:
  "(Stdout t = '''' \<longrightarrow> length (Lines t) = 0) \<and>
   (Stdout t \<noteq> '''' \<longrightarrow>
      length (Lines t) = Suc (count_list (Stdout t) (CHR 0x0A)) \<and>
      (\<forall>l \<in> set (Lines t). CHR 0x0A \<notin> set l) \<and>
      strings_Join (Lines t) [CHR 0x0A] = Stdout t) \<and>
   (Stdout t \<noteq> '''' \<and> Stdout t = strings_TrimSpace s \<longrightarrow>
      hd (Lines t) \<noteq> '''' \<and> \<not> isSpace (hd (hd (Lines t))) \<and>
      last (Lines t) \<noteq> '''' \<and> \<not> isSpace (last (last (Lines t))))"
proof (cases "Stdout t = ''''")
  case True
  then show ?thesis
    by (simp add: Lines_def)
next
  case False
  note L = Lines_nonempty [OF False]
  have 1: "length (Lines t) = Suc (count_list (Stdout t) (CHR 0x0A))"
    unfolding L by (rule SplitN_length) simp
  have 2: "\<forall>l \<in> set (Lines t). CHR 0x0A \<notin> set l"
    unfolding L using SplitN_no_sep [of "Stdout t" "CHR 0x0A" "count_list (Stdout t) (CHR 0x0A)"]
    by blast
  have 3: "strings_Join (Lines t) [CHR 0x0A] = Stdout t"
    using False by (rule Lines_Join)
  have 4: "hd (Lines t) \<noteq> '''' \<and> \<not> isSpace (hd (hd (Lines t))) \<and>
      last (Lines t) \<noteq> '''' \<and> \<not> isSpace (last (last (Lines t)))"
    if "Stdout t = strings_TrimSpace s"
    using that False by (rule Lines_trimmed)
  from False 1 2 3 4 show ?thesis
    by blast
qed

theorem Lines_segments_witness:
  "length (Lines (sample_out '''')) = 0 \<and>
   length (Lines (sample_out ''a \<newline>\<newline> b'')) = 3 \<and>
   strings_Join (Lines (sample_out ''a \<newline>\<newline> b'')) [CHR 0x0A] = ''a \<newline>\<newline> b'' \<and>
   hd (Lines (sample_out ''a \<newline>\<newline> b'')) \<noteq> '''' \<and>
   \<not> isSpace (hd (hd (Lines (sample_out ''a \<newline>\<newline> b'')))) \<and>
   last (Lines (sample_out ''a \<newline>\<newline> b'')) \<noteq> '''' \<and>
   \<not> isSpace (last (last (Lines (sample_out ''a \<newline>\<newline> b''))))"
proof -
  have trim: "strings_TrimSpace '' a \<newline>\<newline> b\<newline>'' = ''a \<newline>\<newline> b''"
    by (simp add: strings_TrimSpace_def isSpace_def)
  show ?thesis
    using Lines_segments [of "sample_out ''''"]
      Lines_segments [of "sample_out ''a \<newline>\<newline> b''" "'' a \<newline>\<newline> b\<newline>''"]
    by (simp add: Stdout_def sample_out_def sample_ts_def trim)
qed

section \<open>Fields and ToMap\<close>

subsection \<open>The loops in closed form\<close>






subsection \<open>Rows of a fixed length\<close>




subsection \<open>The map of the rows\<close>




subsection \<open>Negative lengths\<close>



section \<open>Exec\<close>

text \<open>
  C1. A handle whose exit code is neither 0 nor -1 is returned as it is by \<^verbatim>\<open>Exec\<close>, and
  no process is started: stdout, stderr and the exit code keep their values. With exit
  code 0 or -1, \<^verbatim>\<open>Exec\<close> starts the command (once), and the handle's stdout is what
  that run printed.
\<close>

theorem Exec_guard:
  "(exitCode t \<noteq> 0 \<and> exitCode t \<noteq> - 1 \<longrightarrow> Exec h t = (t, [])) \<and>
   (exitCode t = 0 \<or> exitCode t = - 1 \<longrightarrow>
      snd (Exec h t) = [exec_Command h t] \<and>
      Stdout (fst (Exec h t)) = strings_TrimSpace (out_String (Run h (exec_Command h t))))"
  by (simp add: Exec_def Let_def Stdout_def split: option.split)

theorem Exec_guard_witness:
  "Exec (sample_host killed) (sample_ts ''old'' 7) = (sample_ts ''old'' 7, []) \<and>
   snd (Exec (sample_host killed) (sample_ts ''old'' 0)) =
     [exec_Command (sample_host killed) (sample_ts ''old'' 0)] \<and>
   Stdout (fst (Exec (sample_host killed) (sample_ts ''old'' 0))) = ''partial'' \<and>
   snd (Exec (sample_host killed) (sample_ts ''old'' (- 1))) =
     [exec_Command (sample_host killed) (sample_ts ''old'' (- 1))] \<and>
   Stdout (fst (Exec (sample_host killed) (sample_ts ''old'' (- 1)))) = ''partial''"
proof -
  have trim: "strings_TrimSpace ''partial'' = ''partial''"
    by (simp add: strings_TrimSpace_def isSpace_def)
  show ?thesis
    using Exec_guard [of "sample_ts ''old'' 7" "sample_host killed"]
      Exec_guard [of "sample_ts ''old'' 0" "sample_host killed"]
      Exec_guard [of "sample_ts ''old'' (- 1)" "sample_host killed"]
    by (simp add: sample_ts_def sample_host_def killed_def trim)
qed

text \<open>
  C2. When \<^verbatim>\<open>Exec\<close> runs the command and the deadline of its context is exceeded, the
  exit code is -1 and stderr is the timeout message, which holds the text of the
  configured timeout, whatever exit code, error and stderr output the run left.
\<close>

theorem Exec_timeout:
  assumes "exitCode t = 0 \<or> exitCode t = - 1"
    and "DeadlineExceeded (Run h (exec_Command h t))"
  shows "ExitCode (fst (Exec h t)) = - 1 \<and>
         Stderr (fst (Exec h t)) =
           ''Error: Command execution timed out after '' @
             Duration_String h (Timeout (Cfg t)) @ ''.''"
  using assms
  by (auto simp add: Exec_def Let_def ExitCode_def Stderr_def timeout_message_def
      split: option.split)

theorem Exec_timeout_witness:
  "ExitCode (fst (Exec (sample_host killed) (sample_ts '''' 0))) = - 1 \<and>
   Stderr (fst (Exec (sample_host killed) (sample_ts '''' 0))) =
     ''Error: Command execution timed out after 1m0s.''"
  using Exec_timeout [of "sample_ts '''' 0" "sample_host killed"]
  by (simp add: sample_ts_def sample_host_def killed_def)

text \<open>
  When \<^verbatim>\<open>Exec\<close> runs the command and the deadline is not exceeded, stderr is the
  trimmed stderr output of the process, whatever the run error.
\<close>

lemma Exec_stderr_no_deadline:
  assumes "exitCode t = 0 \<or> exitCode t = - 1"
    and "\<not> DeadlineExceeded (Run h (exec_Command h t))"
  shows "Stderr (fst (Exec h t)) = strings_TrimSpace (stderr_String (Run h (exec_Command h t)))"
  using assms
  by (auto simp add: Exec_def Let_def Stderr_def split: option.split)

text \<open>
  C3 says that after a run error with no stderr output and no timeout, stderr holds the
  text of the run error. \<^verbatim>\<open>Exec\<close> does store that text in stderr, and then overwrites
  stderr with the trimmed stderr output of the process, whether or not a run error
  occurred. On a command that exits with code 7 and writes nothing to stderr, the run
  error is \<^verbatim>\<open>exit status 7\<close>, the deadline is not exceeded, and stderr ends up empty.
\<close>

theorem Exec_run_error_overwritten:
  "run_err (Run (sample_host exit7) (exec_Command (sample_host exit7) (sample_ts '''' 0)))
     = Some ''exit status 7'' \<and>
   stderr_String (Run (sample_host exit7) (exec_Command (sample_host exit7) (sample_ts '''' 0)))
     = '''' \<and>
   \<not> DeadlineExceeded (Run (sample_host exit7) (exec_Command (sample_host exit7) (sample_ts '''' 0))) \<and>
   ExitCode (fst (Exec (sample_host exit7) (sample_ts '''' 0))) = 7 \<and>
   Stderr (fst (Exec (sample_host exit7) (sample_ts '''' 0))) = ''''"
  by (simp add: Exec_def Let_def ExitCode_def Stderr_def sample_host_def exit7_def
      sample_ts_def strings_TrimSpace_def)

end
